theory Spec2Isabelle
  imports Main "HOL-Library.AList"
begin

section \<open>The examples directory\<close>

text \<open>
  \<open>tools/run_pipeline.py\<close> works on one directory, \<open>examples_dir\<close>. A path is the name of
  an entry of that directory. The directory is an association list in scan order (the
  order in which \<open>iterdir\<close> yields the entries); an entry is a regular file or a
  subdirectory. The content of a file is audio that pydub can decode (a list of samples)
  or data that it cannot decode.
\<close>

type_synonym path = string

type_synonym audio = "nat list"

datatype content = Audio audio | Undecodable

datatype entry = File content | Dir

type_synonym directory = "(path \<times> entry) list"

datatype error =
    DecodeError
  | ConcatenationError
  | FileNotFoundError
  | IsADirectoryError
  | ValueError

text \<open>An exception leaves the directory in the state it had when it was raised.\<close>

type_synonym 'a result = "(error \<times> directory) + 'a"

definition iterdir :: "directory \<Rightarrow> path list" where
  "iterdir fs = map fst fs"

definition is_file :: "directory \<Rightarrow> path \<Rightarrow> bool" where
  "is_file fs p = (case map_of fs p of Some (File c) \<Rightarrow> True | Some Dir \<Rightarrow> False | None \<Rightarrow> False)"

definition exists :: "directory \<Rightarrow> path \<Rightarrow> bool" where
  "exists fs p = (case map_of fs p of Some e \<Rightarrow> True | None \<Rightarrow> False)"

text \<open>\<open>Path.unlink\<close>: removes a regular file, raises on a missing path or a directory.\<close>

definition unlink :: "directory \<Rightarrow> path \<Rightarrow> error + directory" where
  "unlink fs p =
     (case map_of fs p of
        None \<Rightarrow> Inl FileNotFoundError
      | Some Dir \<Rightarrow> Inl IsADirectoryError
      | Some (File c) \<Rightarrow> Inr (AList.delete p fs))"

subsection \<open>Suffixes of a name\<close>

text \<open>
  \<open>str.rfind('.')\<close>: the index of the last dot, \<open>None\<close> where Python returns \<open>-1\<close>.
\<close>

definition rfind_dot :: "string \<Rightarrow> nat option" where
  "rfind_dot name =
     (if CHR ''.'' \<in> set name
      then Some (length name - 1 - length (takeWhile (\<lambda>c. c \<noteq> CHR ''.'') (rev name)))
      else None)"

text \<open>
  \<open>PurePath.suffix\<close>: \<open>name[i:]\<close> when \<open>0 < i < len(name) - 1\<close> for the last dot \<open>i\<close>,
  the empty string otherwise.
\<close>

definition suffix :: "string \<Rightarrow> string" where
  "suffix name =
     (case rfind_dot name of
        None \<Rightarrow> []
      | Some i \<Rightarrow> if 0 < i \<and> i + 1 < length name then drop i name else [])"

text \<open>
  \<open>PurePath.with_suffix\<close>: raises \<open>ValueError\<close> on an empty name, appends the new suffix
  when there is none, replaces the old one otherwise.
\<close>

definition with_suffix :: "path \<Rightarrow> string \<Rightarrow> error + path" where
  "with_suffix name s =
     (if name = [] then Inl ValueError
      else if suffix name = [] then Inr (name @ s)
      else Inr (take (length name - length (suffix name)) name @ s))"

text \<open>\<open>str.lower\<close> on the ASCII letters.\<close>

definition lower_char :: "char \<Rightarrow> char" where
  "lower_char c =
     (let n = (of_char c :: nat) in if 65 \<le> n \<and> n \<le> 90 then char_of (n + 32) else c)"

definition lower :: "string \<Rightarrow> string" where
  "lower s = map lower_char s"

text \<open>The test \<open>f.suffix.lower() != ".wav"\<close> of the source, negated.\<close>

definition is_wav :: "path \<Rightarrow> bool" where
  "is_wav f = (lower (suffix f) = ''.wav'')"

section \<open>The collaborators of the merge\<close>

text \<open>
  \<open>AudioSegment.from_file(f)\<close> of pydub: decodes a file, raises on data it cannot decode.
\<close>

definition from_file :: "directory \<Rightarrow> path \<Rightarrow> error + audio" where
  "from_file fs f =
     (case map_of fs f of
        None \<Rightarrow> Inl FileNotFoundError
      | Some Dir \<Rightarrow> Inl IsADirectoryError
      | Some (File Undecodable) \<Rightarrow> Inl DecodeError
      | Some (File (Audio a)) \<Rightarrow> Inr a)"

text \<open>
  \<open>segment.export(wav_path, format="wav")\<close>: opens the target for writing, which creates
  it or replaces its content, and fails on a directory.
\<close>

definition export :: "directory \<Rightarrow> audio \<Rightarrow> path \<Rightarrow> error + directory" where
  "export fs a wav_path =
     (case map_of fs wav_path of
        Some Dir \<Rightarrow> Inl IsADirectoryError
      | Some (File c) \<Rightarrow> Inr (AList.update wav_path (File (Audio a)) fs)
      | None \<Rightarrow> Inr (AList.update wav_path (File (Audio a)) fs))"

text \<open>The audio of the given files, in order; \<open>None\<close> when one of them cannot be read.\<close>

fun read_all :: "directory \<Rightarrow> path list \<Rightarrow> audio list option" where
  "read_all fs [] = Some []"
| "read_all fs (p # ps) =
     (case map_of fs p of
        Some (File (Audio a)) \<Rightarrow>
          (case read_all fs ps of None \<Rightarrow> None | Some as \<Rightarrow> Some (a # as))
      | Some (File Undecodable) \<Rightarrow> None
      | Some Dir \<Rightarrow> None
      | None \<Rightarrow> None)"

text \<open>
  Modelled from the spec: \<open>concat_audio_files_in_dir\<close> of \<open>vanpy.utils.utils\<close>, which
  \<open>run_pipeline.py\<close> imports and whose source is not at hand. The specification
  describes it as the directory concatenation utility \<open>concat_all(directory_path,
  output_path)\<close>: it iterates the directory's current contents, gathers all files now
  present in the target format (the format tag is inferred from the extension) and
  writes their audio, concatenated in directory-scan order, to the output path,
  overwriting any file there; it fails with a ConcatenationError if the directory
  contains zero eligible files or the write target is unwritable. It changes nothing
  else in the directory. The specification does not say what happens when an input
  cannot be read; the model raises DecodeError then, the error of the specification's
  taxonomy for corrupt input.
\<close>

definition concat_audio_files_in_dir :: "directory \<Rightarrow> path \<Rightarrow> error + directory" where
  "concat_audio_files_in_dir fs out =
     (let inputs = filter (\<lambda>p. is_wav p \<and> is_file fs p) (iterdir fs) in
      if inputs = [] then Inl ConcatenationError
      else
        (case read_all fs inputs of
           None \<Rightarrow> Inl DecodeError
         | Some frames \<Rightarrow>
             (case map_of fs out of
                Some Dir \<Rightarrow> Inl ConcatenationError
              | Some (File c) \<Rightarrow> Inr (AList.update out (File (Audio (concat frames))) fs)
              | None \<Rightarrow> Inr (AList.update out (File (Audio (concat frames))) fs))))"

section \<open>\<open>merge_audio_files\<close>\<close>

text \<open>The local \<open>output\<close> of the source (\<open>output\<close> is a reserved word here).\<close>

definition output_path :: path where
  "output_path = ''merged.wav''"

text \<open>
  The body of the \<open>try\<close> statement with its \<open>finally\<close> clause, for a file \<open>f\<close> and its
  target \<open>wav_path\<close>: the source is unlinked whether the conversion raised or not, and an
  exception of the conversion is raised again after the unlink.
\<close>

definition convert :: "directory \<Rightarrow> path \<Rightarrow> path \<Rightarrow> directory result" where
  "convert fs f wav_path =
     (case from_file fs f of
        Inl e \<Rightarrow>
          (case unlink fs f of
             Inl e' \<Rightarrow> Inl (e', fs)
           | Inr fs' \<Rightarrow> Inl (e, fs'))
      | Inr a \<Rightarrow>
          (case export fs a wav_path of
             Inl e \<Rightarrow>
               (case unlink fs f of
                  Inl e' \<Rightarrow> Inl (e', fs)
                | Inr fs' \<Rightarrow> Inl (e, fs'))
           | Inr fs1 \<Rightarrow>
               (case unlink fs1 f of
                  Inl e' \<Rightarrow> Inl (e', fs1)
                | Inr fs2 \<Rightarrow> Inr fs2)))"

text \<open>
  The first loop, over the names that \<open>iterdir\<close> listed when the loop started. It
  returns the directory and the list \<open>wav_files\<close>.
\<close>

fun normalize :: "path list \<Rightarrow> directory \<Rightarrow> path list \<Rightarrow> (directory \<times> path list) result" where
  "normalize [] fs wav_files = Inr (fs, wav_files)"
| "normalize (f # rest) fs wav_files =
     (if \<not> is_wav f \<and> is_file fs f then
        (case with_suffix f ''.wav'' of
           Inl e \<Rightarrow> Inl (e, fs)
         | Inr wav_path \<Rightarrow>
             (case convert fs f wav_path of
                Inl e \<Rightarrow> Inl e
              | Inr fs' \<Rightarrow> normalize rest fs' (wav_files @ [wav_path])))
      else if is_file fs f then normalize rest fs (wav_files @ [f])
      else normalize rest fs wav_files)"

text \<open>The second loop: the intermediate files are removed, the output is kept.\<close>

fun cleanup :: "path list \<Rightarrow> directory \<Rightarrow> directory result" where
  "cleanup [] fs = Inr fs"
| "cleanup (f # rest) fs =
     (if f \<noteq> output_path \<and> exists fs f then
        (case unlink fs f of
           Inl e \<Rightarrow> Inl (e, fs)
         | Inr fs' \<Rightarrow> cleanup rest fs')
      else cleanup rest fs)"

definition merge_audio_files :: "directory \<Rightarrow> directory result" where
  "merge_audio_files examples_dir =
     (case normalize (iterdir examples_dir) examples_dir [] of
        Inl e \<Rightarrow> Inl e
      | Inr (fs1, wav_files) \<Rightarrow>
          (case concat_audio_files_in_dir fs1 output_path of
             Inl e \<Rightarrow> Inl (e, fs1)
           | Inr fs2 \<Rightarrow> cleanup wav_files fs2))"

section \<open>The token step of \<open>main\<close>\<close>

text \<open>
  The environment maps a variable to its value; \<open>os.getenv\<close> returns \<open>None\<close> for a
  variable that is not set.
\<close>

type_synonym environ = "string \<rightharpoonup> string"

definition getenv :: "environ \<Rightarrow> string \<Rightarrow> string option" where
  "getenv env k = env k"

text \<open>Python's truth value of an optional string: \<open>None\<close> and \<open>""\<close> are false.\<close>

definition truthy :: "string option \<Rightarrow> bool" where
  "truthy v = (case v of None \<Rightarrow> False | Some s \<Rightarrow> s \<noteq> [])"

text \<open>\<open>a or b\<close>: \<open>a\<close> when it is true, \<open>b\<close> otherwise.\<close>

definition py_or :: "string option \<Rightarrow> string option \<Rightarrow> string option" where
  "py_or a b = (if truthy a then a else b)"

definition hf_token :: "environ \<Rightarrow> string option" where
  "hf_token env =
     py_or (getenv env ''HUGGINGFACE_ACCESS_TOKEN'')
       (py_or (getenv env ''hf'') (getenv env ''HF_TOKEN''))"

text \<open>
  Lines 54 to 57 of \<open>main\<close>. The second argument is the content of the file \<open>.env\<close> of
  the repository root before the step (\<open>None\<close>: there is no such file), the result is its
  content after the step. Opening with mode \<open>"w"\<close> truncates the file.
\<close>

definition write_env_file :: "environ \<Rightarrow> string option \<Rightarrow> string option" where
  "write_env_file env dot_env =
     (case hf_token env of
        None \<Rightarrow> dot_env
      | Some tok \<Rightarrow>
          if tok \<noteq> [] then Some (''huggingface_ACCESS_TOKEN='' @ tok @ [CHR 0x0A])
          else dot_env)"

section \<open>Properties of the token step\<close>

lemma truthy_simps: "truthy None = False" "truthy (Some s) = (s \<noteq> [])"
  by (simp_all add: truthy_def)

lemma write_env_file_chain:
  "write_env_file env dot_env =
     (if truthy (hf_token env)
      then Some (''huggingface_ACCESS_TOKEN='' @ the (hf_token env) @ [CHR 0x0A])
      else dot_env)"
  by (cases "hf_token env") (simp_all add: write_env_file_def truthy_simps)

text \<open>
  Claim C4. The token is the value of the first of \<open>HUGGINGFACE_ACCESS_TOKEN\<close>, \<open>hf\<close> and
  \<open>HF_TOKEN\<close>, in this order, that holds a non-empty value; when there is one, the file
  \<open>.env\<close> is replaced by the single line \<open>huggingface_ACCESS_TOKEN=<token>\<close> and a newline,
  whatever it held before. With only \<open>HF_TOKEN=abc123\<close> set, the file holds exactly
  \<open>huggingface_ACCESS_TOKEN=abc123\<close> and a newline.
\<close>

theorem token_priority_order:
  "hf_token env =
     (if truthy (env ''HUGGINGFACE_ACCESS_TOKEN'') then env ''HUGGINGFACE_ACCESS_TOKEN''
      else if truthy (env ''hf'') then env ''hf''
      else env ''HF_TOKEN'')
   \<and> write_env_file env dot_env =
     (if truthy (hf_token env)
      then Some (''huggingface_ACCESS_TOKEN='' @ the (hf_token env) @ [CHR 0x0A])
      else dot_env)
   \<and> write_env_file (Map.empty(''HF_TOKEN'' \<mapsto> ''abc123'')) dot_env =
       Some (''huggingface_ACCESS_TOKEN=abc123'' @ [CHR 0x0A])"
proof (intro conjI)
  show "hf_token env =
     (if truthy (env ''HUGGINGFACE_ACCESS_TOKEN'') then env ''HUGGINGFACE_ACCESS_TOKEN''
      else if truthy (env ''hf'') then env ''hf''
      else env ''HF_TOKEN'')"
    by (simp add: hf_token_def py_or_def getenv_def)
  show "write_env_file env dot_env =
     (if truthy (hf_token env)
      then Some (''huggingface_ACCESS_TOKEN='' @ the (hf_token env) @ [CHR 0x0A])
      else dot_env)"
    by (rule write_env_file_chain)
  show "write_env_file (Map.empty(''HF_TOKEN'' \<mapsto> ''abc123'')) dot_env =
       Some (''huggingface_ACCESS_TOKEN=abc123'' @ [CHR 0x0A])"
    by (simp add: write_env_file_def hf_token_def py_or_def getenv_def truthy_simps)
qed

text \<open>
  Claim C8. When none of the three variables is set, the step changes nothing: no file
  \<open>.env\<close> is created, an existing one keeps its content, and nothing is raised.
\<close>

theorem no_token_env_file_untouched:
  assumes "env ''HUGGINGFACE_ACCESS_TOKEN'' = None"
    and "env ''hf'' = None"
    and "env ''HF_TOKEN'' = None"
  shows "write_env_file env dot_env = dot_env"
  using assms by (simp add: write_env_file_def hf_token_def py_or_def getenv_def truthy_simps)

theorem no_token_env_file_untouched_witness:
  "write_env_file Map.empty None = None
   \<and> write_env_file Map.empty (Some ''huggingface_ACCESS_TOKEN=old'') = Some ''huggingface_ACCESS_TOKEN=old''"
  using no_token_env_file_untouched [of Map.empty None]
    no_token_env_file_untouched [of Map.empty "Some ''huggingface_ACCESS_TOKEN=old''"]
  by simp

lemma hf_token_unset_empty:
  assumes "v \<in> {''HUGGINGFACE_ACCESS_TOKEN'', ''hf'', ''HF_TOKEN''}" and "env v = Some []"
  shows "truthy (hf_token (env(v := None))) = truthy (hf_token env)"
    and "truthy (hf_token env) \<Longrightarrow> hf_token (env(v := None)) = hf_token env"
  using assms by (auto simp add: hf_token_def py_or_def getenv_def truthy_simps)

text \<open>
  Claim C9. A variable set to the empty string counts as unset. Removing it from the
  environment does not change what the step does to \<open>.env\<close>. The lookup falls through to
  the next variable of the chain: with \<open>HUGGINGFACE_ACCESS_TOKEN\<close> empty the token is the
  value of \<open>hf\<close> when that is non-empty, whatever \<open>HF_TOKEN\<close> holds, and with the first
  two unset or empty it is the value of \<open>HF_TOKEN\<close>. When every variable is unset or empty
  the file is left as it was. With \<open>HUGGINGFACE_ACCESS_TOKEN\<close> empty and \<open>HF_TOKEN=abc123\<close>
  the file is written with \<open>abc123\<close>; with \<open>HUGGINGFACE_ACCESS_TOKEN\<close> empty, \<open>hf=S\<close> and
  \<open>HF_TOKEN=T\<close> it is written with \<open>S\<close>.
\<close>

theorem empty_token_as_unset:
  "(\<forall>v \<in> {''HUGGINGFACE_ACCESS_TOKEN'', ''hf'', ''HF_TOKEN''}.
       env v = Some [] \<longrightarrow> write_env_file env dot_env = write_env_file (env(v := None)) dot_env)
   \<and> (env ''HUGGINGFACE_ACCESS_TOKEN'' = Some [] \<and> env ''hf'' = Some s \<and> s \<noteq> []
        \<longrightarrow> hf_token env = Some s
          \<and> write_env_file env dot_env = Some (''huggingface_ACCESS_TOKEN='' @ s @ [CHR 0x0A]))
   \<and> ((env ''HUGGINGFACE_ACCESS_TOKEN'' = None \<or> env ''HUGGINGFACE_ACCESS_TOKEN'' = Some [])
        \<and> (env ''hf'' = None \<or> env ''hf'' = Some [])
        \<and> (env ''HUGGINGFACE_ACCESS_TOKEN'' = Some [] \<or> env ''hf'' = Some [])
        \<and> env ''HF_TOKEN'' = Some t \<and> t \<noteq> []
        \<longrightarrow> hf_token env = Some t
          \<and> write_env_file env dot_env = Some (''huggingface_ACCESS_TOKEN='' @ t @ [CHR 0x0A]))
   \<and> ((\<forall>v \<in> {''HUGGINGFACE_ACCESS_TOKEN'', ''hf'', ''HF_TOKEN''}. env v = None \<or> env v = Some [])
        \<longrightarrow> write_env_file env dot_env = dot_env)
   \<and> write_env_file (Map.empty(''HUGGINGFACE_ACCESS_TOKEN'' \<mapsto> [], ''HF_TOKEN'' \<mapsto> ''abc123'')) dot_env =
       Some (''huggingface_ACCESS_TOKEN=abc123'' @ [CHR 0x0A])
   \<and> write_env_file
        (Map.empty(''HUGGINGFACE_ACCESS_TOKEN'' \<mapsto> [], ''hf'' \<mapsto> ''S'', ''HF_TOKEN'' \<mapsto> ''T'')) dot_env =
       Some (''huggingface_ACCESS_TOKEN=S'' @ [CHR 0x0A])"
proof (intro conjI ballI impI)
  fix v assume "v \<in> {''HUGGINGFACE_ACCESS_TOKEN'', ''hf'', ''HF_TOKEN''}" and "env v = Some []"
  then have "truthy (hf_token (env(v := None))) = truthy (hf_token env)"
    and "truthy (hf_token env) \<Longrightarrow> hf_token (env(v := None)) = hf_token env"
    by (rule hf_token_unset_empty [of v env])+
  then show "write_env_file env dot_env = write_env_file (env(v := None)) dot_env"
    by (simp add: write_env_file_chain)
next
  assume a: "env ''HUGGINGFACE_ACCESS_TOKEN'' = Some [] \<and> env ''hf'' = Some s \<and> s \<noteq> []"
  then show "hf_token env = Some s"
    by (simp add: hf_token_def py_or_def getenv_def truthy_simps)
  with a show "write_env_file env dot_env = Some (''huggingface_ACCESS_TOKEN='' @ s @ [CHR 0x0A])"
    by (simp add: write_env_file_def)
next
  assume a: "(env ''HUGGINGFACE_ACCESS_TOKEN'' = None \<or> env ''HUGGINGFACE_ACCESS_TOKEN'' = Some [])
        \<and> (env ''hf'' = None \<or> env ''hf'' = Some [])
        \<and> (env ''HUGGINGFACE_ACCESS_TOKEN'' = Some [] \<or> env ''hf'' = Some [])
        \<and> env ''HF_TOKEN'' = Some t \<and> t \<noteq> []"
  then show "hf_token env = Some t"
    by (auto simp add: hf_token_def py_or_def getenv_def truthy_simps)
  with a show "write_env_file env dot_env = Some (''huggingface_ACCESS_TOKEN='' @ t @ [CHR 0x0A])"
    by (simp add: write_env_file_def)
next
  assume "\<forall>v \<in> {''HUGGINGFACE_ACCESS_TOKEN'', ''hf'', ''HF_TOKEN''}. env v = None \<or> env v = Some []"
  then show "write_env_file env dot_env = dot_env"
    by (auto simp add: write_env_file_def hf_token_def py_or_def getenv_def truthy_simps)
next
  show "write_env_file (Map.empty(''HUGGINGFACE_ACCESS_TOKEN'' \<mapsto> [], ''HF_TOKEN'' \<mapsto> ''abc123'')) dot_env =
       Some (''huggingface_ACCESS_TOKEN=abc123'' @ [CHR 0x0A])"
    by (simp add: write_env_file_def hf_token_def py_or_def getenv_def truthy_simps)
next
  show "write_env_file
        (Map.empty(''HUGGINGFACE_ACCESS_TOKEN'' \<mapsto> [], ''hf'' \<mapsto> ''S'', ''HF_TOKEN'' \<mapsto> ''T'')) dot_env =
       Some (''huggingface_ACCESS_TOKEN=S'' @ [CHR 0x0A])"
    by (simp add: write_env_file_def hf_token_def py_or_def getenv_def truthy_simps)
qed

theorem empty_token_as_unset_witness:
  "write_env_file (Map.empty(''HUGGINGFACE_ACCESS_TOKEN'' \<mapsto> [], ''hf'' \<mapsto> ''S'', ''HF_TOKEN'' \<mapsto> ''T'')) None =
     write_env_file (Map.empty(''hf'' \<mapsto> ''S'', ''HF_TOKEN'' \<mapsto> ''T'')) None
   \<and> write_env_file (Map.empty(''HUGGINGFACE_ACCESS_TOKEN'' \<mapsto> [], ''hf'' \<mapsto> ''S'', ''HF_TOKEN'' \<mapsto> ''T'')) None =
     Some (''huggingface_ACCESS_TOKEN=S'' @ [CHR 0x0A])
   \<and> write_env_file (Map.empty(''hf'' \<mapsto> [], ''HF_TOKEN'' \<mapsto> ''T'')) None =
     Some (''huggingface_ACCESS_TOKEN=T'' @ [CHR 0x0A])
   \<and> write_env_file (Map.empty(''hf'' \<mapsto> [])) (Some ''kept'') = Some ''kept''"
proof -
  let ?e1 = "Map.empty(''HUGGINGFACE_ACCESS_TOKEN'' \<mapsto> [], ''hf'' \<mapsto> ''S'', ''HF_TOKEN'' \<mapsto> ''T'')"
  let ?e2 = "Map.empty(''hf'' \<mapsto> [], ''HF_TOKEN'' \<mapsto> ''T'')"
  let ?e3 = "Map.empty(''hf'' \<mapsto> ([] :: string))"
  have e: "?e1(''HUGGINGFACE_ACCESS_TOKEN'' := None) = Map.empty(''hf'' \<mapsto> ''S'', ''HF_TOKEN'' \<mapsto> ''T'')"
    by (simp add: fun_eq_iff)
  from empty_token_as_unset [where env = ?e1 and dot_env = None, THEN conjunct1]
  have "write_env_file ?e1 None = write_env_file (?e1(''HUGGINGFACE_ACCESS_TOKEN'' := None)) None"
    by simp
  then have 1: "write_env_file ?e1 None =
      write_env_file (Map.empty(''hf'' \<mapsto> ''S'', ''HF_TOKEN'' \<mapsto> ''T'')) None"
    by (simp only: e)
  from empty_token_as_unset [where env = ?e1 and s = "''S''" and dot_env = None,
      THEN conjunct2, THEN conjunct1]
  have 2: "write_env_file ?e1 None = Some (''huggingface_ACCESS_TOKEN=S'' @ [CHR 0x0A])"
    by simp
  from empty_token_as_unset [where env = ?e2 and t = "''T''" and dot_env = None,
      THEN conjunct2, THEN conjunct2, THEN conjunct1]
  have 3: "write_env_file ?e2 None = Some (''huggingface_ACCESS_TOKEN=T'' @ [CHR 0x0A])"
    by simp
  from empty_token_as_unset [where env = ?e3 and dot_env = "Some ''kept''",
      THEN conjunct2, THEN conjunct2, THEN conjunct2, THEN conjunct1]
  have 4: "write_env_file ?e3 (Some ''kept'') = Some ''kept''"
    by simp
  from 1 2 3 4 show ?thesis by blast
qed

section \<open>Properties of the merge\<close>

text \<open>
  Claim C5. On an empty directory the merge fails with a ConcatenationError, raised by the
  concatenation for want of an input and passed on to the caller, and the directory is
  still empty.
\<close>

theorem merge_empty_directory:
  "merge_audio_files [] = Inl (ConcatenationError, [])"
  by (simp add: merge_audio_files_def iterdir_def concat_audio_files_in_dir_def)


subsection \<open>Files and directory updates\<close>

lemma is_file_iff: "is_file fs p \<longleftrightarrow> (\<exists>c. map_of fs p = Some (File c))"
  by (auto simp add: is_file_def split: option.splits entry.splits)

lemma exists_iff: "exists fs p \<longleftrightarrow> map_of fs p \<noteq> None"
  by (simp add: exists_def split: option.splits)

lemma is_file_update: "is_file (AList.update k (File c) fs) p \<longleftrightarrow> p = k \<or> is_file fs p"
  by (simp add: is_file_iff update_conv')

lemma is_file_delete: "is_file (AList.delete k fs) p \<longleftrightarrow> p \<noteq> k \<and> is_file fs p"
  by (simp add: is_file_iff delete_conv')

lemma is_file_in_iterdir: "is_file fs p \<Longrightarrow> p \<in> set (iterdir fs)"
  by (auto simp add: is_file_iff iterdir_def dest: map_of_SomeD intro: rev_image_eqI)

lemma unlink_file: "map_of fs p = Some (File c) \<Longrightarrow> unlink fs p = Inr (AList.delete p fs)"
  by (simp add: unlink_def)

subsection \<open>Suffixes\<close>

lemma rfind_dot_append:
  assumes "CHR ''.'' \<notin> set e"
  shows "rfind_dot (x @ CHR ''.'' # e) = Some (length x)"
proof -
  have "takeWhile (\<lambda>c. c \<noteq> CHR ''.'') (rev e @ CHR ''.'' # rev x) = rev e"
    using assms by (subst takeWhile_append2) auto
  then show ?thesis
    by (simp add: rfind_dot_def)
qed

lemma suffix_append:
  assumes "x \<noteq> []" and "e \<noteq> []" and "CHR ''.'' \<notin> set e"
  shows "suffix (x @ CHR ''.'' # e) = CHR ''.'' # e"
  using assms by (simp add: suffix_def rfind_dot_append)

lemma lower_wav: "lower ''.wav'' = ''.wav''"
  by code_simp

lemma is_wav_append: "x \<noteq> [] \<Longrightarrow> is_wav (x @ ''.wav'')"
  using suffix_append [of x "''wav''"] by (simp add: is_wav_def lower_wav)

lemma suffix_stem_nonempty:
  assumes "suffix name \<noteq> []"
  shows "take (length name - length (suffix name)) name \<noteq> []"
proof -
  from assms obtain i where "rfind_dot name = Some i" and "0 < i" and "i + 1 < length name"
    and "suffix name = drop i name"
    by (auto simp add: suffix_def split: option.splits if_splits)
  then show ?thesis by auto
qed

lemma is_wav_with_suffix: "with_suffix f ''.wav'' = Inr wav_path \<Longrightarrow> is_wav wav_path"
  by (auto simp add: with_suffix_def split: if_splits
      intro!: is_wav_append suffix_stem_nonempty)

lemma is_wav_output_path: "is_wav output_path"
  unfolding output_path_def using is_wav_append [of "''merged''"] by simp

subsection \<open>One conversion\<close>

lemma convert_Inr_iff:
  "convert fs f wav_path = Inr fs' \<longleftrightarrow>
     (\<exists>a. map_of fs f = Some (File (Audio a)) \<and> map_of fs wav_path \<noteq> Some Dir
        \<and> fs' = AList.delete f (AList.update wav_path (File (Audio a)) fs))"
  by (auto simp add: convert_def from_file_def export_def unlink_def update_conv'
      split: option.splits entry.splits content.splits sum.splits)

lemma convert_undecodable:
  "map_of fs f = Some (File Undecodable) \<Longrightarrow> convert fs f wav_path = Inl (DecodeError, AList.delete f fs)"
  by (simp add: convert_def from_file_def unlink_def)


subsection \<open>The first loop\<close>

lemma normalize_append:
  "normalize (xs @ ys) fs ws =
     (case normalize xs fs ws of Inl e \<Rightarrow> Inl e | Inr (fs', ws') \<Rightarrow> normalize ys fs' ws')"
  by (induction xs arbitrary: fs ws) (simp_all split: sum.splits)

lemma normalize_files_listed:
  assumes "normalize names fs ws = Inr (fs', ws')"
    and "\<And>p. is_file fs p \<Longrightarrow> p \<in> set names \<or> p \<in> set ws"
  shows "is_file fs' p \<Longrightarrow> p \<in> set ws'"
  using assms
proof (induction names arbitrary: fs ws)
  case Nil
  then show ?case by auto
next
  case (Cons f rest)
  show ?case
  proof (cases "\<not> is_wav f \<and> is_file fs f")
    case True
    with Cons.prems(2) obtain wav_path fs1 where w: "with_suffix f ''.wav'' = Inr wav_path"
      and c: "convert fs f wav_path = Inr fs1"
      and n: "normalize rest fs1 (ws @ [wav_path]) = Inr (fs', ws')"
      by (auto split: sum.splits)
    from c obtain a where fs1: "fs1 = AList.delete f (AList.update wav_path (File (Audio a)) fs)"
      by (auto simp add: convert_Inr_iff)
    have "\<And>q. is_file fs1 q \<Longrightarrow> q \<in> set rest \<or> q \<in> set (ws @ [wav_path])"
      using Cons.prems(3) by (auto simp add: fs1 is_file_delete is_file_update)
    from Cons.IH [OF Cons.prems(1) n this] show ?thesis .
  next
    case False
    show ?thesis
    proof (cases "is_file fs f")
      case True
      with False Cons.prems(2) have n: "normalize rest fs (ws @ [f]) = Inr (fs', ws')"
        by auto
      have "\<And>q. is_file fs q \<Longrightarrow> q \<in> set rest \<or> q \<in> set (ws @ [f])"
        using Cons.prems(3) by auto
      from Cons.IH [OF Cons.prems(1) n this] show ?thesis .
    next
      case nf: False
      with Cons.prems(2) have n: "normalize rest fs ws = Inr (fs', ws')"
        by auto
      have "\<And>q. is_file fs q \<Longrightarrow> q \<in> set rest \<or> q \<in> set ws"
        using Cons.prems(3) nf by auto
      from Cons.IH [OF Cons.prems(1) n this] show ?thesis .
    qed
  qed
qed

lemma normalize_keeps_dirs:
  "normalize names fs ws = Inr (fs', ws') \<Longrightarrow> map_of fs' p = Some Dir \<longleftrightarrow> map_of fs p = Some Dir"
proof (induction names arbitrary: fs ws)
  case Nil
  then show ?case by simp
next
  case (Cons f rest)
  show ?case
  proof (cases "\<not> is_wav f \<and> is_file fs f")
    case True
    with Cons.prems obtain wav_path fs1 where c: "convert fs f wav_path = Inr fs1"
      and n: "normalize rest fs1 (ws @ [wav_path]) = Inr (fs', ws')"
      by (auto split: sum.splits)
    from c have "map_of fs1 p = Some Dir \<longleftrightarrow> map_of fs p = Some Dir"
      by (auto simp add: convert_Inr_iff delete_conv' update_conv' split: if_splits)
    with Cons.IH [OF n] show ?thesis by simp
  next
    case False
    with Cons.prems Cons.IH show ?thesis
      by (auto split: if_splits)
  qed
qed

lemma normalize_working_set_no_dirs:
  assumes "normalize names fs ws = Inr (fs', ws')"
    and "\<And>p. p \<in> set ws \<Longrightarrow> map_of fs p \<noteq> Some Dir"
  shows "p \<in> set ws' \<Longrightarrow> map_of fs' p \<noteq> Some Dir"
  using assms
proof (induction names arbitrary: fs ws)
  case Nil
  then show ?case by auto
next
  case (Cons f rest)
  show ?case
  proof (cases "\<not> is_wav f \<and> is_file fs f")
    case True
    with Cons.prems(2) obtain wav_path fs1 where c: "convert fs f wav_path = Inr fs1"
      and n: "normalize rest fs1 (ws @ [wav_path]) = Inr (fs', ws')"
      by (auto split: sum.splits)
    from c obtain a where fs1: "fs1 = AList.delete f (AList.update wav_path (File (Audio a)) fs)"
      by (auto simp add: convert_Inr_iff)
    have "\<And>q. q \<in> set (ws @ [wav_path]) \<Longrightarrow> map_of fs1 q \<noteq> Some Dir"
      using Cons.prems(3) by (auto simp add: fs1 delete_conv' update_conv')
    from Cons.IH [OF Cons.prems(1) n this] show ?thesis .
  next
    case False
    show ?thesis
    proof (cases "is_file fs f")
      case True
      with False Cons.prems(2) have n: "normalize rest fs (ws @ [f]) = Inr (fs', ws')"
        by auto
      have "\<And>q. q \<in> set (ws @ [f]) \<Longrightarrow> map_of fs q \<noteq> Some Dir"
        using Cons.prems(3) True by (auto simp add: is_file_iff)
      from Cons.IH [OF Cons.prems(1) n this] show ?thesis .
    next
      case nf: False
      with Cons.prems(2) have n: "normalize rest fs ws = Inr (fs', ws')"
        by auto
      from Cons.IH [OF Cons.prems(1) n Cons.prems(3)] show ?thesis .
    qed
  qed
qed

subsection \<open>The concatenation\<close>

lemma concat_audio_files_in_dir_Inr:
  assumes "concat_audio_files_in_dir fs out = Inr fs'"
  shows "\<exists>frames. read_all fs (filter (\<lambda>p. is_wav p \<and> is_file fs p) (iterdir fs)) = Some frames
           \<and> filter (\<lambda>p. is_wav p \<and> is_file fs p) (iterdir fs) \<noteq> []
           \<and> map_of fs out \<noteq> Some Dir
           \<and> fs' = AList.update out (File (Audio (concat frames))) fs"
  using assms
  by (auto simp add: concat_audio_files_in_dir_def Let_def
      split: if_splits option.splits entry.splits)

subsection \<open>The second loop\<close>

lemma cleanup_Inr:
  "cleanup ws fs = Inr fs' \<Longrightarrow>
     fs' = filter (\<lambda>e. fst e = output_path \<or> fst e \<notin> set ws) fs"
proof (induction ws arbitrary: fs)
  case Nil
  then show ?case by simp
next
  case (Cons f rest)
  show ?case
  proof (cases "f \<noteq> output_path \<and> exists fs f")
    case True
    with Cons.prems have n: "cleanup rest (AList.delete f fs) = Inr fs'"
      by (auto simp add: unlink_def split: sum.splits option.splits entry.splits)
    from Cons.IH [OF n] True show ?thesis
      by (auto simp add: AList.delete_eq intro!: filter_cong)
  next
    case False
    with Cons.prems have n: "cleanup rest fs = Inr fs'"
      by auto
    have "f \<noteq> output_path \<Longrightarrow> f \<notin> fst ` set fs"
      using False by (auto simp add: exists_iff map_of_eq_None_iff)
    with Cons.IH [OF n] show ?thesis
      by (auto intro!: filter_cong)
  qed
qed

lemma map_of_filter_keys:
  "map_of (filter (\<lambda>e. P (fst e)) fs) p = (if P p then map_of fs p else None)"
  by (induction fs) auto

lemma cleanup_total:
  assumes "\<And>p. p \<in> set ws \<Longrightarrow> p \<noteq> output_path \<Longrightarrow> map_of fs p \<noteq> Some Dir"
  shows "\<exists>fs'. cleanup ws fs = Inr fs'"
  using assms
proof (induction ws arbitrary: fs)
  case Nil
  then show ?case by simp
next
  case (Cons f rest)
  show ?case
  proof (cases "f \<noteq> output_path \<and> exists fs f")
    case True
    with Cons.prems [of f] obtain c where c: "map_of fs f = Some (File c)"
      by (cases "map_of fs f") (auto simp add: exists_iff, metis entry.exhaust)
    have "\<And>p. p \<in> set rest \<Longrightarrow> p \<noteq> output_path \<Longrightarrow> map_of (AList.delete f fs) p \<noteq> Some Dir"
      using Cons.prems by (auto simp add: delete_conv')
    from Cons.IH [OF this] True c show ?thesis
      by (auto simp add: unlink_def)
  next
    case False
    have "\<And>p. p \<in> set rest \<Longrightarrow> p \<noteq> output_path \<Longrightarrow> map_of fs p \<noteq> Some Dir"
      using Cons.prems by auto
    from Cons.IH [OF this] False show ?thesis by auto
  qed
qed


lemma merge_audio_files_Inr:
  assumes "merge_audio_files fs = Inr fs'"
  obtains fs1 ws frames where "normalize (iterdir fs) fs [] = Inr (fs1, ws)"
    and "read_all fs1 (filter (\<lambda>p. is_wav p \<and> is_file fs1 p) (iterdir fs1)) = Some frames"
    and "filter (\<lambda>p. is_wav p \<and> is_file fs1 p) (iterdir fs1) \<noteq> []"
    and "map_of fs1 output_path \<noteq> Some Dir"
    and "fs' = filter (\<lambda>e. fst e = output_path \<or> fst e \<notin> set ws)
                 (AList.update output_path (File (Audio (concat frames))) fs1)"
proof -
  from assms obtain fs1 ws fs2 where n: "normalize (iterdir fs) fs [] = Inr (fs1, ws)"
    and c: "concat_audio_files_in_dir fs1 output_path = Inr fs2"
    and u: "cleanup ws fs2 = Inr fs'"
    by (auto simp add: merge_audio_files_def split: sum.splits prod.splits)
  from concat_audio_files_in_dir_Inr [OF c] cleanup_Inr [OF u] n that show thesis
    by blast
qed

lemma map_of_merge_result:
  assumes "normalize (iterdir fs) fs [] = Inr (fs1, ws)"
    and "fs' = filter (\<lambda>e. fst e = output_path \<or> fst e \<notin> set ws)
                 (AList.update output_path (File (Audio m)) fs1)"
  shows "map_of fs' p =
     (if p = output_path then Some (File (Audio m))
      else if map_of fs p = Some Dir then Some Dir else None)"
proof -
  have fs': "map_of fs' p =
      (if p = output_path \<or> p \<notin> set ws
       then ((map_of fs1)(output_path \<mapsto> File (Audio m))) p else None)"
    unfolding assms(2)
    using map_of_filter_keys [of "\<lambda>k. k = output_path \<or> k \<notin> set ws"
        "AList.update output_path (File (Audio m)) fs1" p]
    by (simp add: update_conv')
  have listed: "is_file fs1 p \<Longrightarrow> p \<in> set ws"
    using normalize_files_listed [OF assms(1)] is_file_in_iterdir by blast
  have dirs: "map_of fs1 p = Some Dir \<longleftrightarrow> map_of fs p = Some Dir"
    by (rule normalize_keeps_dirs [OF assms(1)])
  have nodir: "p \<in> set ws \<Longrightarrow> map_of fs1 p \<noteq> Some Dir"
    using normalize_working_set_no_dirs [OF assms(1)] by simp
  show ?thesis
  proof (cases "map_of fs1 p")
    case None
    with fs' dirs show ?thesis by auto
  next
    case (Some e)
    show ?thesis
    proof (cases e)
      case (File c)
      with Some have "is_file fs1 p" by (simp add: is_file_iff)
      with listed fs' Some File dirs show ?thesis by auto
    next
      case Dir
      with Some fs' dirs nodir show ?thesis by auto
    qed
  qed
qed


text \<open>
  Claim C1. When \<open>merge_audio_files\<close> returns, the regular files of the directory are
  exactly \<open>merged.wav\<close>, every other file that was there at the call is gone, and a
  directory that held nothing but files lists \<open>merged.wav\<close> and nothing else.
\<close>

theorem merge_leaves_only_output:
  assumes "merge_audio_files fs = Inr fs'"
  shows "{p. is_file fs' p} = {output_path}
    \<and> (\<forall>p. is_file fs p \<and> p \<noteq> output_path \<longrightarrow> \<not> exists fs' p)
    \<and> ((\<forall>p. map_of fs p \<noteq> Some Dir) \<longrightarrow> set (iterdir fs') = {output_path})"
proof -
  from assms obtain fs1 ws frames where n: "normalize (iterdir fs) fs [] = Inr (fs1, ws)"
    and fs': "fs' = filter (\<lambda>e. fst e = output_path \<or> fst e \<notin> set ws)
                 (AList.update output_path (File (Audio (concat frames))) fs1)"
    by (rule merge_audio_files_Inr)
  note m = map_of_merge_result [OF n fs']
  have "{p. is_file fs' p} = {output_path}"
    by (auto simp add: is_file_iff m split: if_splits)
  moreover have "\<forall>p. is_file fs p \<and> p \<noteq> output_path \<longrightarrow> \<not> exists fs' p"
    by (auto simp add: is_file_iff exists_iff m)
  moreover have "set (iterdir fs') = {output_path}" if "\<forall>p. map_of fs p \<noteq> Some Dir"
  proof -
    have "set (iterdir fs') = dom (map_of fs')"
      by (simp add: iterdir_def dom_map_of_conv_image_fst)
    also have "\<dots> = {output_path}"
      using that by (auto simp add: m dom_def)
    finally show ?thesis .
  qed
  ultimately show ?thesis by blast
qed

lemma merge_two_files:
  "merge_audio_files [(''a.mp3'', File (Audio [1, 2])), (''b.wav'', File (Audio [3]))] =
     Inr [(''merged.wav'', File (Audio [3, 1, 2]))]"
  by code_simp

theorem merge_leaves_only_output_witness:
  "merge_audio_files [(''a.mp3'', File (Audio [1, 2])), (''b.wav'', File (Audio [3]))] =
     Inr [(''merged.wav'', File (Audio [3, 1, 2]))]
   \<and> {p. is_file [(''merged.wav'', File (Audio [3, 1, 2]))] p} = {output_path}
   \<and> \<not> exists [(''merged.wav'', File (Audio [3, 1, 2]))] ''a.mp3''
   \<and> \<not> exists [(''merged.wav'', File (Audio [3, 1, 2]))] ''b.wav''
   \<and> set (iterdir [(''merged.wav'', File (Audio [3, 1, 2]))]) = {output_path}"
proof -
  have d: "\<forall>p. map_of [(''a.mp3'', File (Audio [1, 2])), (''b.wav'', File (Audio [3 :: nat]))] p \<noteq> Some Dir"
    by simp
  have a: "is_file [(''a.mp3'', File (Audio [1, 2])), (''b.wav'', File (Audio [3 :: nat]))] ''a.mp3'' \<and> ''a.mp3'' \<noteq> output_path"
    by (simp add: is_file_def output_path_def)
  have b: "is_file [(''a.mp3'', File (Audio [1, 2])), (''b.wav'', File (Audio [3 :: nat]))] ''b.wav'' \<and> ''b.wav'' \<noteq> output_path"
    by (simp add: is_file_def output_path_def)
  from merge_leaves_only_output [OF merge_two_files] d a b merge_two_files
  show ?thesis by blast
qed

text \<open>
  Claim C6. For a working set of files (no path of it other than the output names a
  subdirectory), the cleanup loop never raises and returns the directory without the
  entries of the working set, the output excepted: a path of the working set that is no
  longer there, or that occurs twice, is skipped, and every entry outside the working set
  is kept.
\<close>

theorem cleanup_removes_intermediates:
  assumes "\<forall>p \<in> set wav_files. p \<noteq> output_path \<longrightarrow> map_of fs p \<noteq> Some Dir"
  shows "cleanup wav_files fs =
     Inr (filter (\<lambda>e. fst e = output_path \<or> fst e \<notin> set wav_files) fs)"
proof -
  from assms obtain fs' where "cleanup wav_files fs = Inr fs'"
    using cleanup_total [of wav_files fs] by blast
  with cleanup_Inr [OF this] show ?thesis by simp
qed

theorem cleanup_removes_intermediates_witness:
  "cleanup [''a.wav'', ''a.wav'', ''merged.wav'', ''gone.wav'']
     [(''a.wav'', File (Audio [1])), (''merged.wav'', File (Audio [1])), (''sub'', Dir)] =
   Inr [(''merged.wav'', File (Audio [1])), (''sub'', Dir)]"
proof -
  have "\<forall>p \<in> set [''a.wav'', ''a.wav'', ''merged.wav'', ''gone.wav''].
      p \<noteq> output_path \<longrightarrow>
      map_of [(''a.wav'', File (Audio [1 :: nat])), (''merged.wav'', File (Audio [1])), (''sub'', Dir)] p \<noteq> Some Dir"
    by simp
  from cleanup_removes_intermediates [OF this] show ?thesis
    by (simp add: output_path_def)
qed


subsection \<open>A conversion that raises\<close>

lemma convert_raises:
  assumes "is_file fs f"
    and "from_file fs f = Inl e \<or> (\<exists>a. from_file fs f = Inr a \<and> export fs a wav_path = Inl e)"
  shows "convert fs f wav_path = Inl (e, AList.delete f fs)"
  using assms by (auto simp add: convert_def unlink_def is_file_iff)

lemma normalize_step_convert:
  assumes "\<not> is_wav f" and "is_file fs f"
    and "with_suffix f ''.wav'' = Inr wav_path"
    and "convert fs f wav_path = Inr fs1"
  shows "normalize (f # rest) fs ws = normalize rest fs1 (ws @ [wav_path])"
  using assms by simp

lemma normalize_keeps_wav_files:
  "normalize names fs ws = Inr (fs', ws') \<Longrightarrow> is_wav p \<Longrightarrow> is_file fs p \<Longrightarrow> is_file fs' p"
proof (induction names arbitrary: fs ws)
  case Nil
  then show ?case by simp
next
  case (Cons f rest)
  show ?case
  proof (cases "\<not> is_wav f \<and> is_file fs f")
    case True
    with Cons.prems(1) obtain wav_path fs1 where c: "convert fs f wav_path = Inr fs1"
      and n: "normalize rest fs1 (ws @ [wav_path]) = Inr (fs', ws')"
      by (auto split: sum.splits)
    from c True Cons.prems(2,3) have "is_file fs1 p"
      by (auto simp add: convert_Inr_iff is_file_delete is_file_update)
    from Cons.IH [OF n Cons.prems(2) this] show ?thesis .
  next
    case False
    with Cons.prems Cons.IH show ?thesis
      by (auto split: if_splits)
  qed
qed

lemma normalize_converted_remain:
  assumes "normalize names fs ws = Inr (fs', ws')"
    and "g \<in> set names" and "\<not> is_wav g" and "is_file fs g"
  shows "\<exists>w. with_suffix g ''.wav'' = Inr w \<and> is_file fs' w"
  using assms
proof (induction names arbitrary: fs ws)
  case Nil
  then show ?case by simp
next
  case (Cons f rest)
  show ?case
  proof (cases "\<not> is_wav f \<and> is_file fs f")
    case True
    with Cons.prems(1) obtain wav_path fs1 where w: "with_suffix f ''.wav'' = Inr wav_path"
      and c: "convert fs f wav_path = Inr fs1"
      and n: "normalize rest fs1 (ws @ [wav_path]) = Inr (fs', ws')"
      by (auto split: sum.splits)
    from c obtain a where fs1: "fs1 = AList.delete f (AList.update wav_path (File (Audio a)) fs)"
      by (auto simp add: convert_Inr_iff)
    show ?thesis
    proof (cases "g = f")
      case True
      have "is_wav wav_path" using w by (rule is_wav_with_suffix)
      moreover from this Cons.prems(3) True have "is_file fs1 wav_path"
        by (auto simp add: fs1 is_file_delete is_file_update)
      ultimately have "is_file fs' wav_path"
        using normalize_keeps_wav_files [OF n] by blast
      with w True show ?thesis by simp
    next
      case False
      with Cons.prems(2,4) have "g \<in> set rest" and "is_file fs1 g"
        by (auto simp add: fs1 is_file_delete is_file_update)
      from Cons.IH [OF n this(1) Cons.prems(3) this(2)] show ?thesis .
    qed
  next
    case False
    with Cons.prems have "g \<in> set rest" by auto
    with False Cons.prems Cons.IH show ?thesis
      by (auto split: if_splits)
  qed
qed

lemma normalize_target_unchanged:
  assumes "normalize names fs ws = Inr (fs', ws')" and "is_wav p"
    and "\<And>g. g \<in> set names \<Longrightarrow> \<not> is_wav g \<Longrightarrow> is_file fs g \<Longrightarrow> with_suffix g ''.wav'' \<noteq> Inr p"
  shows "map_of fs' p = map_of fs p"
  using assms
proof (induction names arbitrary: fs ws)
  case Nil
  then show ?case by simp
next
  case (Cons f rest)
  show ?case
  proof (cases "\<not> is_wav f \<and> is_file fs f")
    case True
    with Cons.prems(1) obtain wav_path fs1 where w: "with_suffix f ''.wav'' = Inr wav_path"
      and c: "convert fs f wav_path = Inr fs1"
      and n: "normalize rest fs1 (ws @ [wav_path]) = Inr (fs', ws')"
      by (auto split: sum.splits)
    from c obtain a where fs1: "fs1 = AList.delete f (AList.update wav_path (File (Audio a)) fs)"
      by (auto simp add: convert_Inr_iff)
    have wav: "is_wav wav_path" using w by (rule is_wav_with_suffix)
    from w True Cons.prems(3) [of f] have "wav_path \<noteq> p" by auto
    moreover from True Cons.prems(2) have "f \<noteq> p" by auto
    ultimately have 1: "map_of fs1 p = map_of fs p"
      by (simp add: fs1 delete_conv' update_conv')
    have "with_suffix g ''.wav'' \<noteq> Inr p"
      if "g \<in> set rest" and "\<not> is_wav g" and "is_file fs1 g" for g
    proof -
      from that(2) wav have "g \<noteq> wav_path" by auto
      with that(3) have "is_file fs g"
        by (simp add: fs1 is_file_delete is_file_update)
      with that Cons.prems(3) [of g] show ?thesis by simp
    qed
    from Cons.IH [OF n Cons.prems(2) this] 1 show ?thesis by simp
  next
    case False
    with Cons.prems(1) have "normalize rest fs ws = Inr (fs', ws') \<or>
        normalize rest fs (ws @ [f]) = Inr (fs', ws')"
      by (auto split: if_splits)
    then show ?thesis
      using Cons.IH [OF _ Cons.prems(2)] Cons.prems(3) by auto
  qed
qed

text \<open>
  Claim C3. Let the conversion of the file \<open>f\<close> raise \<open>e\<close> (the decoding fails, or the
  export does), the files before it in scan order having been processed without error,
  which left the directory \<open>fs1\<close>. Then \<open>merge_audio_files\<close> raises \<open>e\<close> and leaves exactly
  \<open>fs1\<close> without \<open>f\<close>: the source of the failed conversion is gone, the concatenation has
  not run (the output path is as it was, unless an earlier file was converted into it),
  and the output of every earlier conversion is still there.
\<close>

theorem failed_conversion_aborts:
  assumes "iterdir fs = pre @ f # post"
    and "normalize pre fs [] = Inr (fs1, ws)"
    and "\<not> is_wav f" and "is_file fs1 f"
    and "with_suffix f ''.wav'' = Inr wav_path"
    and "from_file fs1 f = Inl e
         \<or> (\<exists>a. from_file fs1 f = Inr a \<and> export fs1 a wav_path = Inl e)"
  shows "merge_audio_files fs = Inl (e, AList.delete f fs1)
    \<and> \<not> exists (AList.delete f fs1) f
    \<and> (\<forall>g \<in> set pre. \<not> is_wav g \<and> is_file fs g \<longrightarrow>
          (\<exists>w. with_suffix g ''.wav'' = Inr w \<and> is_file (AList.delete f fs1) w))
    \<and> ((\<forall>g \<in> set pre.
            \<not> is_wav g \<and> is_file fs g \<longrightarrow> with_suffix g ''.wav'' \<noteq> Inr output_path) \<longrightarrow>
          map_of (AList.delete f fs1) output_path = map_of fs output_path)"
proof (intro conjI ballI impI)
  have "normalize (f # post) fs1 ws = Inl (e, AList.delete f fs1)"
    using assms(3-5) convert_raises [OF assms(4,6)] by simp
  then have "normalize (iterdir fs) fs [] = Inl (e, AList.delete f fs1)"
    by (simp add: assms(1,2) normalize_append)
  then show "merge_audio_files fs = Inl (e, AList.delete f fs1)"
    by (simp add: merge_audio_files_def)
next
  show "\<not> exists (AList.delete f fs1) f"
    by (simp add: exists_iff delete_conv')
next
  fix g assume "g \<in> set pre" and "\<not> is_wav g \<and> is_file fs g"
  with normalize_converted_remain [OF assms(2)]
  obtain w where w: "with_suffix g ''.wav'' = Inr w" and "is_file fs1 w"
    by blast
  moreover from w have "is_wav w" by (rule is_wav_with_suffix)
  ultimately show "\<exists>w. with_suffix g ''.wav'' = Inr w \<and> is_file (AList.delete f fs1) w"
    using assms(3) by (auto simp add: is_file_delete)
next
  assume "\<forall>g \<in> set pre.
      \<not> is_wav g \<and> is_file fs g \<longrightarrow> with_suffix g ''.wav'' \<noteq> Inr output_path"
  with normalize_target_unchanged [OF assms(2) is_wav_output_path]
  have "map_of fs1 output_path = map_of fs output_path" by blast
  moreover have "f \<noteq> output_path" using assms(3) is_wav_output_path by auto
  ultimately show "map_of (AList.delete f fs1) output_path = map_of fs output_path"
    by (simp add: delete_conv')
qed

lemma normalize_one_converted:
  "normalize [''a.mp3''] [(''a.mp3'', File (Audio [1])), (''b.txt'', File Undecodable), (''c.ogg'', File (Audio [3]))] [] =
     Inr ([(''b.txt'', File Undecodable), (''c.ogg'', File (Audio [3])), (''a.wav'', File (Audio [1]))], [''a.wav''])"
  by code_simp

theorem failed_conversion_aborts_witness:
  "merge_audio_files [(''a.mp3'', File (Audio [1])), (''b.txt'', File Undecodable), (''c.ogg'', File (Audio [3]))] =
     Inl (DecodeError, [(''c.ogg'', File (Audio [3])), (''a.wav'', File (Audio [1]))])
   \<and> \<not> exists [(''c.ogg'', File (Audio [3])), (''a.wav'', File (Audio [1]))] ''b.txt''
   \<and> is_file [(''c.ogg'', File (Audio [3])), (''a.wav'', File (Audio [1]))] ''a.wav''
   \<and> map_of [(''c.ogg'', File (Audio [3])), (''a.wav'', File (Audio [1]))] output_path = None"
proof -
  let ?fs = "[(''a.mp3'', File (Audio [1 :: nat])), (''b.txt'', File Undecodable), (''c.ogg'', File (Audio [3]))]"
  let ?fs1 = "[(''b.txt'', File Undecodable), (''c.ogg'', File (Audio [3 :: nat])), (''a.wav'', File (Audio [1]))]"
  have 1: "iterdir ?fs = [''a.mp3''] @ ''b.txt'' # [''c.ogg'']"
    by (simp add: iterdir_def)
  have 3: "\<not> is_wav ''b.txt''" by code_simp
  have 4: "is_file ?fs1 ''b.txt''" by (simp add: is_file_def)
  have 5: "with_suffix ''b.txt'' ''.wav'' = Inr ''b.wav''" by code_simp
  have 6: "from_file ?fs1 ''b.txt'' = Inl DecodeError
      \<or> (\<exists>a. from_file ?fs1 ''b.txt'' = Inr a \<and> export ?fs1 a ''b.wav'' = Inl DecodeError)"
    by (simp add: from_file_def)
  have 7: "\<not> is_wav ''a.mp3'' \<and> is_file ?fs ''a.mp3''"
    by (rule conjI, code_simp, simp add: is_file_def)
  have 8: "with_suffix ''a.mp3'' ''.wav'' = Inr ''a.wav''" by code_simp
  have 9: "with_suffix ''a.mp3'' ''.wav'' \<noteq> Inr output_path" by code_simp
  have 10: "AList.delete ''b.txt'' ?fs1 = [(''c.ogg'', File (Audio [3])), (''a.wav'', File (Audio [1]))]"
    by (simp add: AList.delete_eq)
  from failed_conversion_aborts [OF 1 normalize_one_converted 3 4 5 6] 7 8 9
  show ?thesis
    unfolding 10 by (simp add: output_path_def)
qed


subsection \<open>A second run\<close>

lemma normalize_only_wav:
  assumes "\<And>p. p \<in> set names \<Longrightarrow> is_file fs p \<Longrightarrow> is_wav p"
  shows "normalize names fs ws = Inr (fs, ws @ filter (is_file fs) names)"
  using assms by (induction names arbitrary: ws) auto

lemma read_all_same:
  assumes "\<And>p. p \<in> set ps \<Longrightarrow> map_of fs p = Some (File (Audio m))"
  shows "read_all fs ps = Some (map (\<lambda>p. m) ps)"
  using assms by (induction ps) auto

lemma cleanup_only_output:
  assumes "\<And>p. p \<in> set ws \<Longrightarrow> p = output_path"
  shows "cleanup ws fs = Inr fs"
  using assms by (induction ws) auto

lemma filter_eq_distinct:
  "distinct xs \<Longrightarrow> x \<in> set xs \<Longrightarrow> filter (\<lambda>p. p = x) xs = [x]"
proof (induction xs)
  case Nil
  then show ?case by simp
next
  case (Cons y ys)
  show ?case
  proof (cases "y = x")
    case True
    with Cons.prems have "x \<notin> set ys" by simp
    then have "filter (\<lambda>p. p = x) ys = []" by (auto simp add: filter_empty_conv)
    with True show ?thesis by simp
  next
    case False
    with Cons show ?thesis by auto
  qed
qed

lemma merge_of_merged:
  assumes files: "\<And>p. is_file fs p \<longleftrightarrow> p = output_path"
    and m: "map_of fs output_path = Some (File (Audio m))"
  shows "merge_audio_files fs =
     Inr (AList.update output_path
            (File (Audio (concat (map (\<lambda>p. m) (filter (\<lambda>p. p = output_path) (iterdir fs)))))) fs)"
proof -
  let ?ins = "filter (\<lambda>p. p = output_path) (iterdir fs)"
  have n: "normalize (iterdir fs) fs [] = Inr (fs, ?ins)"
    using normalize_only_wav [of "iterdir fs" fs "[]"] files is_wav_output_path
    by (simp cong: filter_cong)
  have i: "filter (\<lambda>p. is_wav p \<and> is_file fs p) (iterdir fs) = ?ins"
    using files is_wav_output_path by (auto intro: filter_cong)
  have "output_path \<in> set (iterdir fs)"
    using files is_file_in_iterdir by blast
  then have ne: "?ins \<noteq> []"
    by (auto simp add: filter_empty_conv)
  have r: "read_all fs ?ins = Some (map (\<lambda>p. m) ?ins)"
    by (rule read_all_same) (simp add: m)
  have c: "concat_audio_files_in_dir fs output_path =
      Inr (AList.update output_path (File (Audio (concat (map (\<lambda>p. m) ?ins)))) fs)"
    by (simp add: concat_audio_files_in_dir_def i ne r m)
  have u: "cleanup ?ins fs2 = Inr fs2" for fs2
    by (rule cleanup_only_output) simp
  show ?thesis
    by (simp add: merge_audio_files_def n c u)
qed

lemma normalize_distinct:
  "normalize names fs ws = Inr (fs', ws') \<Longrightarrow> distinct (map fst fs) \<Longrightarrow> distinct (map fst fs')"
proof (induction names arbitrary: fs ws)
  case Nil
  then show ?case by simp
next
  case (Cons f rest)
  show ?case
  proof (cases "\<not> is_wav f \<and> is_file fs f")
    case True
    with Cons.prems(1) obtain wav_path fs1 where c: "convert fs f wav_path = Inr fs1"
      and n: "normalize rest fs1 (ws @ [wav_path]) = Inr (fs', ws')"
      by (auto split: sum.splits)
    from c Cons.prems(2) have "distinct (map fst fs1)"
      by (auto simp add: convert_Inr_iff distinct_update distinct_delete)
    from Cons.IH [OF n this] show ?thesis .
  next
    case False
    with Cons.prems Cons.IH show ?thesis
      by (auto split: if_splits)
  qed
qed

lemma merge_audio_files_distinct:
  assumes "merge_audio_files fs = Inr fs'" and "distinct (map fst fs)"
  shows "distinct (map fst fs')"
proof -
  from assms(1) obtain fs1 ws frames where n: "normalize (iterdir fs) fs [] = Inr (fs1, ws)"
    and fs': "fs' = filter (\<lambda>e. fst e = output_path \<or> fst e \<notin> set ws)
                 (AList.update output_path (File (Audio (concat frames))) fs1)"
    by (rule merge_audio_files_Inr)
  from normalize_distinct [OF n assms(2)] show ?thesis
    unfolding fs' by (simp add: distinct_map_filter distinct_update)
qed

text \<open>
  Claim C7. After a run that returned, a second run on the resulting directory returns
  too, and leaves \<open>merged.wav\<close> as its only file: the listing of the directory and
  every entry other than \<open>merged.wav\<close> are as the first run left them. When the names of
  the directory are distinct, as the names of a directory are, the second run leaves the
  directory exactly as the first run did, the audio of \<open>merged.wav\<close> included.
\<close>

theorem second_run_keeps_one_file:
  assumes "merge_audio_files fs = Inr fs'"
  shows "(\<exists>fs''. merge_audio_files fs' = Inr fs''
            \<and> {p. is_file fs'' p} = {output_path}
            \<and> iterdir fs'' = iterdir fs'
            \<and> (\<forall>p. p \<noteq> output_path \<longrightarrow> map_of fs'' p = map_of fs' p))
    \<and> (distinct (iterdir fs) \<longrightarrow> merge_audio_files fs' = Inr fs')"
proof -
  from assms obtain fs1 ws frames where n: "normalize (iterdir fs) fs [] = Inr (fs1, ws)"
    and fs': "fs' = filter (\<lambda>e. fst e = output_path \<or> fst e \<notin> set ws)
                 (AList.update output_path (File (Audio (concat frames))) fs1)"
    by (rule merge_audio_files_Inr)
  note mp = map_of_merge_result [OF n fs']
  have files: "is_file fs' p \<longleftrightarrow> p = output_path" for p
    by (auto simp add: is_file_iff mp split: if_splits)
  have m: "map_of fs' output_path = Some (File (Audio (concat frames)))"
    by (simp add: mp)
  let ?m2 = "concat (map (\<lambda>p. concat frames) (filter (\<lambda>p. p = output_path) (iterdir fs')))"
  let ?fs2 = "AList.update output_path (File (Audio ?m2)) fs'"
  have run: "merge_audio_files fs' = Inr ?fs2"
    using files m by (rule merge_of_merged)
  have "output_path \<in> set (map fst fs')"
    using m by (metis map_of_eq_None_iff option.distinct(1) set_map)
  then have keys: "iterdir ?fs2 = iterdir fs'"
    by (simp add: iterdir_def update_keys)
  have f2: "{p. is_file ?fs2 p} = {output_path}"
    using files by (auto simp add: is_file_update)
  have rest: "\<forall>p. p \<noteq> output_path \<longrightarrow> map_of ?fs2 p = map_of fs' p"
    by (simp add: update_conv')
  have fixed: "merge_audio_files fs' = Inr fs'" if "distinct (iterdir fs)"
  proof -
    from that have "distinct (map fst fs')"
      using merge_audio_files_distinct [OF assms] by (simp add: iterdir_def)
    with \<open>output_path \<in> set (map fst fs')\<close>
    have "filter (\<lambda>p. p = output_path) (iterdir fs') = [output_path]"
      by (simp add: iterdir_def filter_eq_distinct)
    then have "?fs2 = fs'"
      using m by (simp add: update_triv)
    with run show ?thesis by simp
  qed
  from run keys f2 rest fixed show ?thesis by blast
qed

theorem second_run_keeps_one_file_witness:
  "merge_audio_files [(''a.mp3'', File (Audio [1, 2])), (''b.wav'', File (Audio [3]))] =
     Inr [(''merged.wav'', File (Audio [3, 1, 2]))]
   \<and> merge_audio_files [(''merged.wav'', File (Audio [3, 1, 2]))] =
     Inr [(''merged.wav'', File (Audio [3, 1, 2]))]"
proof -
  have "distinct (iterdir [(''a.mp3'', File (Audio [1, 2])), (''b.wav'', File (Audio [3 :: nat]))])"
    by (simp add: iterdir_def)
  with second_run_keeps_one_file [OF merge_two_files] merge_two_files
  show ?thesis by blast
qed


subsection \<open>A stale output\<close>








subsection \<open>A conversion onto an existing file\<close>

lemma with_suffix_replaces:
  assumes "stem \<noteq> []" and "ext \<noteq> []" and "CHR ''.'' \<notin> set ext"
  shows "with_suffix (stem @ CHR ''.'' # ext) s = Inr (stem @ s)"
  using assms by (simp add: with_suffix_def suffix_append)

lemma update_update_commute:
  "k \<noteq> k' \<Longrightarrow> k' \<in> fst ` set al \<Longrightarrow>
     AList.update k v (AList.update k' v' al) = AList.update k' v' (AList.update k v al)"
  by (induction al) auto

lemma is_file_keys: "is_file fs p \<Longrightarrow> p \<in> fst ` set fs"
  using is_file_in_iterdir [of fs p] by (simp add: iterdir_def)

lemma is_file_update_same:
  "is_file fs w \<Longrightarrow> is_file (AList.update w (File c) fs) p \<longleftrightarrow> is_file fs p"
  by (auto simp add: is_file_update)

lemma convert_onto_updated:
  assumes "is_wav w" and "is_file a w" and "\<not> is_wav g"
    and "convert a g wp = Inr a1"
  shows "wp = w \<Longrightarrow> convert (AList.update w (File c) a) g wp = Inr a1"
    and "wp \<noteq> w \<Longrightarrow> convert (AList.update w (File c) a) g wp = Inr (AList.update w (File c) a1)"
proof -
  from assms(1,3) have gw: "g \<noteq> w" by auto
  from assms(4) obtain x where g: "map_of a g = Some (File (Audio x))"
    and d: "map_of a wp \<noteq> Some Dir"
    and a1: "a1 = AList.delete g (AList.update wp (File (Audio x)) a)"
    by (auto simp add: convert_Inr_iff)
  show "convert (AList.update w (File c) a) g wp = Inr a1" if "wp = w"
    using that g gw by (simp add: convert_Inr_iff update_conv' a1)
  show "convert (AList.update w (File c) a) g wp = Inr (AList.update w (File c) a1)" if "wp \<noteq> w"
  proof -
    have "AList.update wp (File (Audio x)) (AList.update w (File c) a) =
        AList.update w (File c) (AList.update wp (File (Audio x)) a)"
      using that assms(2) by (simp add: update_update_commute is_file_keys)
    then show ?thesis
      using that g gw d by (simp add: convert_Inr_iff update_conv' a1 delete_update)
  qed
qed

lemma normalize_forgets_target:
  assumes "normalize names a ws = Inr (ra, wsa)"
    and "is_wav w" and "is_file a w"
  shows "\<exists>rb. normalize names (AList.update w (File c) a) ws = Inr (rb, wsa) \<and>
      (rb = ra \<or> (rb = AList.update w (File c) ra \<and>
          (\<forall>g \<in> set names. \<not> is_wav g \<and> is_file a g \<longrightarrow> with_suffix g ''.wav'' \<noteq> Inr w)))"
  using assms
proof (induction names arbitrary: a ws)
  case Nil
  then show ?case by simp
next
  case (Cons g rest)
  let ?b = "AList.update w (File c) a"
  have same: "is_file ?b p \<longleftrightarrow> is_file a p" for p
    using Cons.prems(3) by (rule is_file_update_same)
  show ?case
  proof (cases "\<not> is_wav g \<and> is_file a g")
    case True
    with Cons.prems(1) obtain wp a1 where wp: "with_suffix g ''.wav'' = Inr wp"
      and c: "convert a g wp = Inr a1"
      and n: "normalize rest a1 (ws @ [wp]) = Inr (ra, wsa)"
      by (auto split: sum.splits)
    from True have ng: "\<not> is_wav g" by simp
    show ?thesis
    proof (cases "wp = w")
      case eq: True
      from convert_onto_updated(1) [OF Cons.prems(2,3) ng c eq]
      have "normalize (g # rest) ?b ws = normalize rest a1 (ws @ [wp])"
        using True wp by (simp add: same)
      with n show ?thesis by simp
    next
      case neq: False
      from convert_onto_updated(2) [OF Cons.prems(2,3) ng c neq]
      have step: "normalize (g # rest) ?b ws =
          normalize rest (AList.update w (File c) a1) (ws @ [wp])"
        using True wp by (simp add: same)
      from c obtain x where a1: "a1 = AList.delete g (AList.update wp (File (Audio x)) a)"
        by (auto simp add: convert_Inr_iff)
      from Cons.prems(2,3) ng have w1: "is_file a1 w"
        by (auto simp add: a1 is_file_delete is_file_update)
      from Cons.IH [OF n Cons.prems(2) w1] obtain rb
        where r: "normalize rest (AList.update w (File c) a1) (ws @ [wp]) = Inr (rb, wsa)"
          and d: "rb = ra \<or> (rb = AList.update w (File c) ra \<and>
            (\<forall>h \<in> set rest. \<not> is_wav h \<and> is_file a1 h \<longrightarrow> with_suffix h ''.wav'' \<noteq> Inr w))"
        by blast
      have "with_suffix h ''.wav'' \<noteq> Inr w"
        if "\<forall>h \<in> set rest. \<not> is_wav h \<and> is_file a1 h \<longrightarrow> with_suffix h ''.wav'' \<noteq> Inr w"
          and "h \<in> set (g # rest)" and "\<not> is_wav h" and "is_file a h" for h
      proof (cases "h = g")
        case True
        with wp neq show ?thesis by simp
      next
        case False
        with that(2,4) have "h \<in> set rest" and "is_file a1 h"
          by (auto simp add: a1 is_file_delete is_file_update)
        with that(1,3) show ?thesis by blast
      qed
      with d have "rb = ra \<or> (rb = AList.update w (File c) ra \<and>
            (\<forall>h \<in> set (g # rest). \<not> is_wav h \<and> is_file a h \<longrightarrow> with_suffix h ''.wav'' \<noteq> Inr w))"
        by blast
      with step r show ?thesis by simp
    qed
  next
    case False
    show ?thesis
    proof (cases "is_file a g")
      case True
      with False Cons.prems(1) have n: "normalize rest a (ws @ [g]) = Inr (ra, wsa)"
        by auto
      from True False have step: "normalize (g # rest) ?b ws = normalize rest ?b (ws @ [g])"
        by (simp add: same)
      from Cons.IH [OF n Cons.prems(2,3)] False step show ?thesis
        by auto
    next
      case nf: False
      with Cons.prems(1) have n: "normalize rest a ws = Inr (ra, wsa)"
        by auto
      from nf have step: "normalize (g # rest) ?b ws = normalize rest ?b ws"
        by (simp add: same)
      from Cons.IH [OF n Cons.prems(2,3)] nf step show ?thesis
        by auto
    qed
  qed
qed

lemma merge_forgets_target:
  assumes "merge_audio_files fs = Inr r"
    and "is_wav w" and "is_file fs w"
    and "\<not> is_wav f" and "is_file fs f" and "with_suffix f ''.wav'' = Inr w"
  shows "merge_audio_files (AList.update w (File c) fs) = Inr r"
proof -
  from assms(1) obtain fs1 ws where n: "normalize (iterdir fs) fs [] = Inr (fs1, ws)"
    by (auto simp add: merge_audio_files_def split: sum.splits)
  have keys: "iterdir (AList.update w (File c) fs) = iterdir fs"
    using assms(3) by (simp add: iterdir_def update_keys is_file_keys)
  from normalize_forgets_target [OF n assms(2,3)] obtain rb
    where rb: "normalize (iterdir fs) (AList.update w (File c) fs) [] = Inr (rb, ws)"
      and d: "rb = fs1 \<or> (rb = AList.update w (File c) fs1 \<and>
          (\<forall>g \<in> set (iterdir fs). \<not> is_wav g \<and> is_file fs g \<longrightarrow> with_suffix g ''.wav'' \<noteq> Inr w))"
    by blast
  from assms(4-6) is_file_in_iterdir [OF assms(5)] d have "rb = fs1" by blast
  with rb n assms(1) show ?thesis
    by (simp add: merge_audio_files_def keys)
qed

text \<open>
  Claim C10. For a file \<open>name.ext\<close> that is not in the target format, the target of the
  conversion is \<open>name.wav\<close>. When the directory holds \<open>name.wav\<close> as well, a conversion
  that decodes \<open>name.ext\<close> replaces the content of \<open>name.wav\<close> and gives the same
  directory whatever \<open>name.wav\<close> held before; and a run of \<open>merge_audio_files\<close> that
  returns gives the same result whatever \<open>name.wav\<close> held at the call: its original
  content does not reach the merge.
\<close>

theorem conversion_overwrites_existing_wav:
  assumes "stem \<noteq> []" and "ext \<noteq> []" and "CHR ''.'' \<notin> set ext"
    and "\<not> is_wav (stem @ CHR ''.'' # ext)"
    and "is_file fs (stem @ CHR ''.'' # ext)" and "is_file fs (stem @ ''.wav'')"
  shows "with_suffix (stem @ CHR ''.'' # ext) ''.wav'' = Inr (stem @ ''.wav'')
    \<and> (\<forall>a. map_of fs (stem @ CHR ''.'' # ext) = Some (File (Audio a)) \<longrightarrow>
          convert fs (stem @ CHR ''.'' # ext) (stem @ ''.wav'') =
            Inr (AList.delete (stem @ CHR ''.'' # ext)
                   (AList.update (stem @ ''.wav'') (File (Audio a)) fs))
          \<and> convert (AList.update (stem @ ''.wav'') (File c) fs) (stem @ CHR ''.'' # ext) (stem @ ''.wav'') =
              convert fs (stem @ CHR ''.'' # ext) (stem @ ''.wav''))
    \<and> (\<forall>r. merge_audio_files fs = Inr r \<longrightarrow>
          merge_audio_files (AList.update (stem @ ''.wav'') (File c) fs) = Inr r)"
proof (intro conjI allI impI)
  let ?f = "stem @ CHR ''.'' # ext" and ?w = "stem @ ''.wav''"
  show w: "with_suffix ?f ''.wav'' = Inr ?w"
    using assms(1-3) by (rule with_suffix_replaces)
  have wav: "is_wav ?w" using assms(1) by (rule is_wav_append)
  {
    fix a assume a: "map_of fs ?f = Some (File (Audio a))"
    from assms(6) have nd: "map_of fs ?w \<noteq> Some Dir"
      by (auto simp add: is_file_iff)
    with a show c: "convert fs ?f ?w = Inr (AList.delete ?f (AList.update ?w (File (Audio a)) fs))"
      by (simp add: convert_Inr_iff)
    from convert_onto_updated(1) [OF wav assms(6,4) c] c
    show "convert (AList.update ?w (File c) fs) ?f ?w = convert fs ?f ?w"
      by simp
  }
  {
    fix r assume "merge_audio_files fs = Inr r"
    from merge_forgets_target [OF this wav assms(6,4,5) w]
    show "merge_audio_files (AList.update ?w (File c) fs) = Inr r" .
  }
qed

lemma merge_name_clash:
  "merge_audio_files [(''a.mp3'', File (Audio [5])), (''a.wav'', File (Audio [7]))] =
     Inr [(''merged.wav'', File (Audio [5]))]"
  by code_simp

theorem conversion_overwrites_existing_wav_witness:
  "with_suffix ''a.mp3'' ''.wav'' = Inr ''a.wav''
   \<and> convert [(''a.mp3'', File (Audio [5])), (''a.wav'', File (Audio [7]))] ''a.mp3'' ''a.wav'' =
       Inr [(''a.wav'', File (Audio [5]))]
   \<and> merge_audio_files [(''a.mp3'', File (Audio [5])), (''a.wav'', File (Audio [7]))] =
       Inr [(''merged.wav'', File (Audio [5]))]
   \<and> merge_audio_files [(''a.mp3'', File (Audio [5])), (''a.wav'', File (Audio [9]))] =
       Inr [(''merged.wav'', File (Audio [5]))]"
proof -
  let ?fs = "[(''a.mp3'', File (Audio [5 :: nat])), (''a.wav'', File (Audio [7]))]"
  have 1: "''a'' \<noteq> []" and 2: "''mp3'' \<noteq> []" and 3: "CHR ''.'' \<notin> set ''mp3''"
    by simp_all
  have 4: "\<not> is_wav (''a'' @ CHR ''.'' # ''mp3'')" by code_simp
  have 5: "is_file ?fs (''a'' @ CHR ''.'' # ''mp3'')" by (simp add: is_file_def)
  have 6: "is_file ?fs (''a'' @ ''.wav'')" by (simp add: is_file_def)
  note t = conversion_overwrites_existing_wav [OF 1 2 3 4 5 6, where c = "Audio [9]"]
  have a: "map_of ?fs (''a'' @ CHR ''.'' # ''mp3'') = Some (File (Audio [5]))" by simp
  have u: "AList.update (''a'' @ ''.wav'') (File (Audio [9])) ?fs =
      [(''a.mp3'', File (Audio [5])), (''a.wav'', File (Audio [9]))]"
    by simp
  have d: "AList.delete (''a'' @ CHR ''.'' # ''mp3'') (AList.update (''a'' @ ''.wav'') (File (Audio [5])) ?fs) =
      [(''a.wav'', File (Audio [5]))]"
    by (simp add: AList.delete_eq)
  from t [THEN conjunct1] have w: "with_suffix ''a.mp3'' ''.wav'' = Inr ''a.wav''" by simp
  from t [THEN conjunct2, THEN conjunct1, rule_format, OF a, THEN conjunct1]
  have c: "convert ?fs ''a.mp3'' ''a.wav'' = Inr [(''a.wav'', File (Audio [5]))]"
    unfolding d by simp
  from t [THEN conjunct2, THEN conjunct2, rule_format, OF merge_name_clash]
  have m: "merge_audio_files [(''a.mp3'', File (Audio [5])), (''a.wav'', File (Audio [9]))] =
       Inr [(''merged.wav'', File (Audio [5]))]"
    unfolding u .
  from w c merge_name_clash m show ?thesis by simp
qed

end
